theory Spec2Isabelle
  imports Complex_Main "HOL-Library.Multiset"
begin

chapter \<open>The model\<close>

section \<open>Core data structures (types.py)\<close>

text \<open>
  Python floats are modelled by the rational number they denote: every finite float is a
  rational, and comparison, \<open>min\<close>, \<open>max\<close>, doubling and the decimal formatting used below
  are functions of that value. Not-a-number and the infinities are outside the model.
  Python strings are lists of characters, paths are lists of path components.
\<close>

type_synonym pyfloat = rat
type_synonym path = "string list"



text \<open>The exceptions the modelled functions raise, as values.\<close>

datatype error =
    ValueError string
  | IndexError string
  | KeyError string
  | RuntimeError string
  | CompilationError string
  | FileNotFoundError path
  | FileExistsError path
  | NotADirectoryError path
  | IsADirectoryError path
  | SameFileError path

record BoundingBox =
  x_min :: pyfloat
  y_min :: pyfloat
  x_max :: pyfloat
  y_max :: pyfloat



definition width :: "BoundingBox \<Rightarrow> pyfloat" where
  "width b = x_max b - x_min b"

definition height :: "BoundingBox \<Rightarrow> pyfloat" where
  "height b = y_max b - y_min b"


definition padded :: "BoundingBox \<Rightarrow> pyfloat \<Rightarrow> BoundingBox" where
  "padded self padding_bp =
     \<lparr> x_min = x_min self - padding_bp,
       y_min = y_min self - padding_bp,
       x_max = x_max self + padding_bp,
       y_max = y_max self + padding_bp \<rparr>"

section \<open>Bounding-box envelope (bbox.py)\<close>


section \<open>Probe sampling (bbox.py)\<close>

text \<open>
  Python's \<open>round\<close> on a float rounds to the nearest integer and a tie to the even
  neighbour.
\<close>

definition py_round :: "pyfloat \<Rightarrow> int" where
  "py_round x =
     (let f = \<lfloor>x\<rfloor>; d = x - of_int f
      in if d < 1 / 2 then f
         else if d > 1 / 2 then f + 1
         else if even f then f else f + 1)"



section \<open>Frame deduplication (assembly.py)\<close>

text \<open>
  A \<open>DeduplicatedFrame\<close> holds the representative image, the summed delay and the
  indices of the frames it absorbed. Images are kept abstract; the parameter \<open>rmse\<close>
  stands for \<open>_rmse\<close>, the normalised root-mean-square difference computed with PIL
  and numpy.
\<close>

record 'img DeduplicatedFrame =
  frame_image :: 'img
  delay_ms :: int
  original_indices :: "nat list"

text \<open>
  The body of \<open>for i in range(1, len(images))\<close>: \<open>groups[-1]\<close> is the last group, which
  is either extended in place or followed by a new group. Reading \<open>delays_ms[i]\<close> past the
  end of the list raises \<open>IndexError\<close>.
\<close>

fun dedup_loop ::
  "('img \<Rightarrow> 'img \<Rightarrow> pyfloat) \<Rightarrow> 'img list \<Rightarrow> int list \<Rightarrow> pyfloat \<Rightarrow> nat list \<Rightarrow>
   'img DeduplicatedFrame list \<Rightarrow> error + 'img DeduplicatedFrame list" where
  "dedup_loop rmse images delays_ms threshold [] groups = Inr groups"
| "dedup_loop rmse images delays_ms threshold (i # rest) groups =
     (if rmse (frame_image (last groups)) (images ! i) < threshold then
        (if i < length delays_ms then
           dedup_loop rmse images delays_ms threshold rest
             (butlast groups @
              [(last groups)\<lparr> delay_ms := delay_ms (last groups) + delays_ms ! i,
                              original_indices := original_indices (last groups) @ [i] \<rparr>])
         else Inl (IndexError ''list index out of range''))
      else
        (if i < length delays_ms then
           dedup_loop rmse images delays_ms threshold rest
             (groups @ [\<lparr> frame_image = images ! i, delay_ms = delays_ms ! i, original_indices = [i] \<rparr>])
         else Inl (IndexError ''list index out of range'')))"

definition deduplicate_frames ::
  "('img \<Rightarrow> 'img \<Rightarrow> pyfloat) \<Rightarrow> 'img list \<Rightarrow> int list \<Rightarrow> pyfloat \<Rightarrow>
   error + 'img DeduplicatedFrame list" where
  "deduplicate_frames rmse images delays_ms threshold =
     (if images = [] then Inr []
      else case delays_ms of
        [] \<Rightarrow> Inl (IndexError ''list index out of range'')
      | d0 # _ \<Rightarrow>
          dedup_loop rmse images delays_ms threshold [1..<length images]
            [\<lparr> frame_image = images ! 0, delay_ms = d0, original_indices = [0] \<rparr>])"

text \<open>
  The loop invariant after frame \<open>k - 1\<close>: the groups are non-empty, their index lists
  concatenate to \<open>[0, ..., k - 1]\<close>, and each group carries the image of its first frame and
  the sum of the delays of its frames.
\<close>

definition group_ok :: "'img list \<Rightarrow> int list \<Rightarrow> 'img DeduplicatedFrame \<Rightarrow> bool" where
  "group_ok images delays_ms g \<longleftrightarrow>
     original_indices g \<noteq> []
     \<and> frame_image g = images ! hd (original_indices g)
     \<and> delay_ms g = sum_list (map (\<lambda>i. delays_ms ! i) (original_indices g))"

definition dedup_inv :: "'img list \<Rightarrow> int list \<Rightarrow> nat \<Rightarrow> 'img DeduplicatedFrame list \<Rightarrow> bool" where
  "dedup_inv images delays_ms k groups \<longleftrightarrow>
     groups \<noteq> []
     \<and> concat (map original_indices groups) = [0..<k]
     \<and> list_all (group_ok images delays_ms) groups"

section \<open>Text of integers\<close>

definition NL :: char where
  "NL = CHR 0x0A"

definition digit_char :: "nat \<Rightarrow> char" where
  "digit_char d = ''0123456789'' ! d"

fun str_nat :: "nat \<Rightarrow> string" where
  "str_nat n = (if n < 10 then [digit_char n] else str_nat (n div 10) @ [digit_char (n mod 10)])"

declare str_nat.simps [simp del]



section \<open>Frames, results and configuration (types.py)\<close>

text \<open>
  \<open>FrameSpec\<close> and \<open>FrameResult\<close> both have a field \<open>index\<close> in the source; the field of
  \<open>FrameResult\<close> is \<open>result_index\<close> here.
\<close>

record FrameSpec =
  index :: int
  param_value :: pyfloat
  param_name :: string
  tex_content :: string
  content_hash :: string

record FrameResult =
  result_index :: int
  success :: bool
  pdf_path :: "path option"
  png_path :: "path option"
  error_message :: string
  cached :: bool
  compile_time_s :: pyfloat
  bounding_box :: "BoundingBox option"



section \<open>Engine selection (engine.py)\<close>




section \<open>Single-frame compilation (compiler.py)\<close>



datatype attempt = FirstAttempt | RetryAttempt




section \<open>The orchestrator (compiler.py)\<close>

text \<open>
  The effects of \<open>compile_frames\<close> that its callers can observe, in the order they
  happen: a frame submitted to the pool with a timeout, \<open>cache.store_bbox\<close>, the callback
  \<open>on_frame_done\<close>, and \<open>cancel\<close> on a future. Progress reporting and logging are left out.
\<close>

datatype event =
    Submit attempt FrameSpec pyfloat
  | StoreBbox string BoundingBox
  | FrameDone FrameResult
  | Cancel FrameSpec






definition store_bbox_events :: "FrameSpec \<Rightarrow> FrameResult \<Rightarrow> event list" where
  "store_bbox_events spec result =
     (case bounding_box result of
        Some bb \<Rightarrow> [StoreBbox (content_hash spec) bb]
      | None \<Rightarrow> [])"







text \<open>Reading the effects: the submissions of one frame, and the futures cancelled.\<close>

fun submissions_of :: "FrameSpec \<Rightarrow> event list \<Rightarrow> (attempt \<times> pyfloat) list" where
  "submissions_of spec [] = []"
| "submissions_of spec (Submit a s t # es) =
     (if s = spec then (a, t) # submissions_of spec es else submissions_of spec es)"
| "submissions_of spec (e # es) = submissions_of spec es"

fun cancelled :: "event list \<Rightarrow> FrameSpec list" where
  "cancelled [] = []"
| "cancelled (Cancel s # es) = s # cancelled es"
| "cancelled (e # es) = cancelled es"




section \<open>A small batch\<close>






section \<open>The file system under the cache (cache.py)\<close>

text \<open>
  The cache is a directory tree. A file system maps a path to a directory or to a file
  with its content; the empty path is the root of the file system and always a directory.
  Links are not modelled.
\<close>

datatype fdata = Text string | BBoxJson BoundingBox

datatype node = Dir | File fdata

type_synonym filesystem = "path \<rightharpoonup> node"

definition is_file :: "filesystem \<Rightarrow> path \<Rightarrow> bool" where
  "is_file fs p = (case fs p of Some (File d) \<Rightarrow> True | _ \<Rightarrow> False)"

definition is_dir :: "filesystem \<Rightarrow> path \<Rightarrow> bool" where
  "is_dir fs p = (p = [] \<or> fs p = Some Dir)"

text \<open>
  \<open>path.mkdir(parents=True, exist_ok=True)\<close>: the components of the path are created
  from the top; an existing directory is kept, a file in the way raises. The first
  component is the file system after the call, whether it returned or raised.
\<close>

fun mkdirs :: "filesystem \<Rightarrow> path \<Rightarrow> path \<Rightarrow> filesystem \<times> error option" where
  "mkdirs fs pre [] = (fs, None)"
| "mkdirs fs pre (c # cs) =
     (case fs (pre @ [c]) of
        Some (File d) \<Rightarrow>
          (fs, Some (if cs = [] then FileExistsError (pre @ [c])
                     else NotADirectoryError (pre @ c # cs)))
      | _ \<Rightarrow> mkdirs (fs(pre @ [c] \<mapsto> Dir)) (pre @ [c]) cs)"

definition ensure_dir :: "filesystem \<Rightarrow> path \<Rightarrow> filesystem \<times> error option" where
  "ensure_dir fs p = mkdirs fs [] p"

text \<open>\<open>path.write_text(data)\<close>: the directory of the file must exist.\<close>

definition write_file :: "filesystem \<Rightarrow> path \<Rightarrow> fdata \<Rightarrow> error + filesystem" where
  "write_file fs p d =
     (if fs p = Some Dir \<or> p = [] then Inl (IsADirectoryError p)
      else if \<not> is_dir fs (butlast p) then Inl (FileNotFoundError p)
      else Inr (fs(p \<mapsto> File d)))"

text \<open>
  \<open>shutil.copy2(src, dst)\<close>: a destination that is a directory stands for the file of the
  source's name inside it; copying a file onto itself raises \<open>SameFileError\<close>.
\<close>

definition copy2 :: "filesystem \<Rightarrow> path \<Rightarrow> path \<Rightarrow> error + filesystem" where
  "copy2 fs src dst =
     (let dst = (if is_dir fs dst \<and> src \<noteq> [] then dst @ [last src] else dst)
      in if src = dst \<and> fs src \<noteq> None then Inl (SameFileError src)
         else case fs src of
                None \<Rightarrow> Inl (FileNotFoundError src)
              | Some Dir \<Rightarrow> Inl (IsADirectoryError src)
              | Some (File d) \<Rightarrow> write_file fs dst d)"

section \<open>The compilation cache (cache.py)\<close>

text \<open>
  \<open>_key_dir\<close>: \<open>root / "frames" / content_hash[:2] / content_hash[2:]\<close>. The two slices
  are taken as single path components, which they are for the hexadecimal digests that
  serve as content hashes.
\<close>

definition key_dir :: "path \<Rightarrow> string \<Rightarrow> path" where
  "key_dir croot h = croot @ [''frames'', take 2 h, drop 2 h]"

definition is_sha256_hex :: "string \<Rightarrow> bool" where
  "is_sha256_hex h \<longleftrightarrow> length h = 64 \<and> list_all (\<lambda>c. c \<in> set ''0123456789abcdef'') h"

text \<open>\<open>CompilationCache.__init__\<close> creates \<open>root/frames\<close> and \<open>root/meta\<close>.\<close>

definition cache_init :: "path \<Rightarrow> filesystem \<Rightarrow> filesystem \<times> error option" where
  "cache_init croot fs =
     (case ensure_dir fs (croot @ [''frames'']) of
        (fs1, Some e) \<Rightarrow> (fs1, Some e)
      | (fs1, None) \<Rightarrow> ensure_dir fs1 (croot @ [''meta'']))"

definition has_frame :: "path \<Rightarrow> filesystem \<Rightarrow> string \<Rightarrow> bool" where
  "has_frame croot fs h = is_file fs (key_dir croot h @ [''frame.pdf''])"

definition get_pdf_path :: "path \<Rightarrow> filesystem \<Rightarrow> string \<Rightarrow> path option" where
  "get_pdf_path croot fs h =
     (let pdf = key_dir croot h @ [''frame.pdf'']
      in if is_file fs pdf then Some pdf else None)"

definition get_png_path :: "path \<Rightarrow> filesystem \<Rightarrow> string \<Rightarrow> path option" where
  "get_png_path croot fs h =
     (let png = key_dir croot h @ [''frame.png'']
      in if is_file fs png then Some png else None)"

text \<open>
  The stores. Each gives the file system after the call and either the value returned
  or the exception raised.
\<close>

definition frame_dir :: "path \<Rightarrow> filesystem \<Rightarrow> string \<Rightarrow> filesystem \<times> (error + path)" where
  "frame_dir croot fs h =
     (case ensure_dir fs (key_dir croot h) of
        (fs1, Some e) \<Rightarrow> (fs1, Inl e)
      | (fs1, None) \<Rightarrow> (fs1, Inr (key_dir croot h)))"

definition store_tex :: "path \<Rightarrow> filesystem \<Rightarrow> FrameSpec \<Rightarrow> filesystem \<times> (error + path)" where
  "store_tex croot fs spec =
     (case frame_dir croot fs (content_hash spec) of
        (fs1, Inl e) \<Rightarrow> (fs1, Inl e)
      | (fs1, Inr d) \<Rightarrow>
          (case write_file fs1 (d @ [''frame.tex'']) (Text (tex_content spec)) of
             Inl e \<Rightarrow> (fs1, Inl e)
           | Inr fs2 \<Rightarrow> (fs2, Inr (d @ [''frame.tex'']))))"

definition store_pdf :: "path \<Rightarrow> filesystem \<Rightarrow> FrameSpec \<Rightarrow> path \<Rightarrow> filesystem \<times> (error + path)" where
  "store_pdf croot fs spec src =
     (case frame_dir croot fs (content_hash spec) of
        (fs1, Inl e) \<Rightarrow> (fs1, Inl e)
      | (fs1, Inr d) \<Rightarrow>
          (case copy2 fs1 src (d @ [''frame.pdf'']) of
             Inl e \<Rightarrow> (fs1, Inl e)
           | Inr fs2 \<Rightarrow> (fs2, Inr (d @ [''frame.pdf'']))))"

definition store_png :: "path \<Rightarrow> filesystem \<Rightarrow> FrameSpec \<Rightarrow> path \<Rightarrow> filesystem \<times> (error + path)" where
  "store_png croot fs spec src =
     (case frame_dir croot fs (content_hash spec) of
        (fs1, Inl e) \<Rightarrow> (fs1, Inl e)
      | (fs1, Inr d) \<Rightarrow>
          (case copy2 fs1 src (d @ [''frame.png'']) of
             Inl e \<Rightarrow> (fs1, Inl e)
           | Inr fs2 \<Rightarrow> (fs2, Inr (d @ [''frame.png'']))))"

definition store_bbox :: "path \<Rightarrow> filesystem \<Rightarrow> string \<Rightarrow> BoundingBox \<Rightarrow> filesystem \<times> (error + unit)" where
  "store_bbox croot fs h bbox =
     (case frame_dir croot fs h of
        (fs1, Inl e) \<Rightarrow> (fs1, Inl e)
      | (fs1, Inr d) \<Rightarrow>
          (case write_file fs1 (d @ [''bbox.json'']) (BBoxJson bbox) of
             Inl e \<Rightarrow> (fs1, Inl e)
           | Inr fs2 \<Rightarrow> (fs2, Inr ())))"

text \<open>A history of calls on the cache, and the file system it leaves.\<close>

datatype cache_op =
    OpFrameDir string
  | OpStoreTex FrameSpec
  | OpStorePdf FrameSpec path
  | OpStorePng FrameSpec path
  | OpStoreBbox string BoundingBox

fun apply_op :: "path \<Rightarrow> filesystem \<Rightarrow> cache_op \<Rightarrow> filesystem" where
  "apply_op croot fs (OpFrameDir h) = fst (frame_dir croot fs h)"
| "apply_op croot fs (OpStoreTex spec) = fst (store_tex croot fs spec)"
| "apply_op croot fs (OpStorePdf spec src) = fst (store_pdf croot fs spec src)"
| "apply_op croot fs (OpStorePng spec src) = fst (store_png croot fs spec src)"
| "apply_op croot fs (OpStoreBbox h bbox) = fst (store_bbox croot fs h bbox)"

definition run_ops :: "path \<Rightarrow> filesystem \<Rightarrow> cache_op list \<Rightarrow> filesystem" where
  "run_ops croot fs ops = foldl (apply_op croot) fs ops"

fun op_hash :: "cache_op \<Rightarrow> string" where
  "op_hash (OpFrameDir h) = h"
| "op_hash (OpStoreTex spec) = content_hash spec"
| "op_hash (OpStorePdf spec src) = content_hash spec"
| "op_hash (OpStorePng spec src) = content_hash spec"
| "op_hash (OpStoreBbox h bbox) = h"

fun stores_pdf_for :: "string \<Rightarrow> cache_op \<Rightarrow> bool" where
  "stores_pdf_for h (OpStorePdf spec src) = (content_hash spec = h)"
| "stores_pdf_for h other = False"

text \<open>
  Two notions for the proofs: no directory sits four levels below the cache root (where
  the files of a frame live), and one file system is another with one file written.
\<close>

definition no_deep_dir :: "path \<Rightarrow> filesystem \<Rightarrow> bool" where
  "no_deep_dir croot fs \<longleftrightarrow> (\<forall>q. length q = 4 \<longrightarrow> fs (croot @ q) \<noteq> Some Dir)"

definition adds_file :: "filesystem \<Rightarrow> filesystem \<Rightarrow> path \<Rightarrow> bool" where
  "adds_file fs fs' p \<longleftrightarrow> (\<exists>d. fs' = fs(p \<mapsto> File d))"

text \<open>A frame with a digest for its hash, and a file system holding a compiled PDF outside the cache.\<close>

definition ex_hash :: string where
  "ex_hash = ''ab0123456789cdef0123456789abcdef0123456789abcdef0123456789abcdef''"

definition ex_cached_spec :: FrameSpec where
  "ex_cached_spec =
     \<lparr> index = 0, param_value = 5, param_name = ''PARAM'', tex_content = ''Hello'',
       content_hash = ex_hash \<rparr>"

definition ex_fs :: filesystem where
  "ex_fs = [[''tmp'', ''out.pdf''] \<mapsto> File (Text ''%PDF-fake'')]"

section \<open>Text of floats\<close>

text \<open>
  The format \<open>{x:g}\<close> of a float: the value is rounded to six significant digits, ties to
  even; with \<open>exp\<close> the decimal exponent of the rounded value, fixed notation is used when
  \<open>-4 \<le> exp < 6\<close> and exponent notation otherwise; trailing zeros of the fraction are
  removed, and the decimal point with them when no fraction is left.
\<close>

definition BSL :: char where
  "BSL = CHR 0x5C"

fun ndigits :: "nat \<Rightarrow> nat" where
  "ndigits n = (if n < 10 then 1 else Suc (ndigits (n div 10)))"

declare ndigits.simps [simp del]

definition pow10 :: "int \<Rightarrow> rat" where
  "pow10 e = (if e \<ge> 0 then 10 ^ nat e else 1 / 10 ^ nat (- e))"

text \<open>The decimal exponent of a positive rational: the \<open>e\<close> with \<open>10^e \<le> a < 10^(e+1)\<close>.\<close>

definition exponent10 :: "rat \<Rightarrow> int" where
  "exponent10 a =
     (let (n, d) = quotient_of a;
          e0 = int (ndigits (nat n)) - int (ndigits (nat d))
      in if pow10 e0 \<le> a then e0 else e0 - 1)"

text \<open>
  Six significant digits of a positive rational, as an integer from \<open>100000\<close> to
  \<open>999999\<close>, with the decimal exponent after rounding.
\<close>

definition round6 :: "rat \<Rightarrow> nat \<times> int" where
  "round6 a =
     (let e = exponent10 a;
          m = nat (py_round (a / pow10 (e - 5)))
      in if m \<ge> 1000000 then (100000, e + 1) else (m, e))"

definition strip_zeros :: "string \<Rightarrow> string" where
  "strip_zeros s = rev (dropWhile (\<lambda>c. c = CHR ''0'') (rev s))"

definition with_fraction :: "string \<Rightarrow> string \<Rightarrow> string" where
  "with_fraction whole fr =
     (let f = strip_zeros fr in if f = [] then whole else whole @ ''.'' @ f)"

definition fmt_g_pos :: "rat \<Rightarrow> string" where
  "fmt_g_pos a =
     (case round6 a of (m, e) \<Rightarrow>
        let ds = str_nat m in
        if - 4 \<le> e \<and> e < 6 then
          (if e \<ge> 0 then with_fraction (take (nat e + 1) ds) (drop (nat e + 1) ds)
           else with_fraction ''0'' (replicate (nat (- e - 1)) CHR ''0'' @ ds))
        else
          with_fraction (take 1 ds) (drop 1 ds) @ ''e'' @ (if e < 0 then ''-'' else ''+'')
          @ (if \<bar>e\<bar> < 10 then ''0'' else '''') @ str_nat (nat \<bar>e\<bar>))"

definition fmt_g :: "pyfloat \<Rightarrow> string" where
  "fmt_g x = (if x = 0 then ''0'' else if x < 0 then ''-'' @ fmt_g_pos (- x) else fmt_g_pos x)"

text \<open>
  The property of a text of \<open>fmt_g\<close> that its significand, the part before an \<open>e\<close>, has no
  trailing zero after a decimal point and no trailing decimal point.
\<close>

definition significand :: "string \<Rightarrow> string" where
  "significand s = takeWhile (\<lambda>c. c \<noteq> CHR ''e'') s"

definition zeros_stripped :: "string \<Rightarrow> bool" where
  "zeros_stripped s \<longleftrightarrow>
     significand s \<noteq> []
     \<and> last (significand s) \<noteq> CHR ''.''
     \<and> (CHR ''.'' \<in> set (significand s) \<longrightarrow> last (significand s) \<noteq> CHR ''0'')"

section \<open>String operations of Python\<close>

text \<open>
  Characters are code points below 256. \<open>is_space\<close> is the class \<open>\s\<close> of the \<open>re\<close> module
  on them.
\<close>

definition is_space :: "char \<Rightarrow> bool" where
  "is_space c \<longleftrightarrow> of_char c \<in> {9, 10, 11, 12, 13, 28, 29, 30, 31, 32, 133, 160 :: nat}"

definition startswith :: "string \<Rightarrow> string \<Rightarrow> bool" where
  "startswith s p \<longleftrightarrow> take (length p) s = p"

text \<open>
  \<open>s.replace(old, new)\<close>: the occurrences of \<open>old\<close> are replaced from the left, without
  overlap; an empty \<open>old\<close> matches before every character and at the end.
\<close>

function replace_nonempty :: "string \<Rightarrow> string \<Rightarrow> string \<Rightarrow> string" where
  "replace_nonempty s old new =
     (if old = [] \<or> s = [] then s
      else if startswith s old then new @ replace_nonempty (drop (length old) s) old new
      else hd s # replace_nonempty (tl s) old new)"
  by pat_completeness auto
termination
  by (relation "measure (\<lambda>(s, old, new). length s)") (auto simp: neq_Nil_conv)

declare replace_nonempty.simps [simp del]

definition py_replace :: "string \<Rightarrow> string \<Rightarrow> string \<Rightarrow> string" where
  "py_replace s old new =
     (if old = [] then new @ concat (map (\<lambda>c. c # new) s) else replace_nonempty s old new)"

text \<open>\<open>sep.join(parts)\<close> and \<open>s.rstrip("\n")\<close>.\<close>

fun join :: "string \<Rightarrow> string list \<Rightarrow> string" where
  "join sep [] = []"
| "join sep [p] = p"
| "join sep (p # q # ps) = p @ sep @ join sep (q # ps)"

definition rstrip_newlines :: "string \<Rightarrow> string" where
  "rstrip_newlines s = rev (dropWhile (\<lambda>c. c = NL) (rev s))"

section \<open>The two regular expressions of frame generation (tex_gen.py)\<close>

text \<open>
  The pattern \<open>\\begin\s*\{tikzpicture\}[^\n]*\n\<close> matched at the start of a string:
  the length of the match, if any. After \<open>\begin\<close> all white space is skipped, since the
  next character has to be a brace; after \<open>{tikzpicture}\<close> the match runs to the first
  newline.
\<close>

definition match_tikz_open :: "string \<Rightarrow> nat option" where
  "match_tikz_open s =
     (if startswith s (BSL # ''begin'') then
        let r = drop 6 s;
            ws = takeWhile is_space r;
            r = dropWhile is_space r
        in if startswith r ''{tikzpicture}'' then
             let line = takeWhile (\<lambda>c. c \<noteq> NL) (drop 13 r)
             in if NL \<in> set (drop 13 r) then Some (6 + length ws + 13 + length line + 1)
                else None
           else None
      else None)"

text \<open>\<open>pattern.search(body)\<close> followed by \<open>m.end()\<close>: the end of the leftmost match.\<close>

fun search_tikz_open :: "string \<Rightarrow> nat option" where
  "search_tikz_open [] = None"
| "search_tikz_open (c # cs) =
     (case match_tikz_open (c # cs) of
        Some n \<Rightarrow> Some n
      | None \<Rightarrow> map_option Suc (search_tikz_open cs))"

text \<open>
  \<open>_RE_DOCUMENTCLASS\<close>,
  \<open>\\documentclass(?:\s*\[[^\]]*\])?\s*\{[^}]+\}\<close>: whether it matches at the start of a
  string, and whether it matches anywhere in it.
\<close>

definition match_class_braces :: "string \<Rightarrow> bool" where
  "match_class_braces s =
     (let r = dropWhile is_space s
      in startswith r ''{''
         \<and> takeWhile (\<lambda>c. c \<noteq> CHR ''}'') (drop 1 r) \<noteq> []
         \<and> CHR ''}'' \<in> set (drop 1 r))"

definition match_documentclass :: "string \<Rightarrow> bool" where
  "match_documentclass s =
     (startswith s (BSL # ''documentclass'')
      \<and> (let r = drop 14 s;
              opt = dropWhile is_space r
          in (startswith opt ''['' \<and> CHR '']'' \<in> set (drop 1 opt)
              \<and> match_class_braces (drop 1 (dropWhile (\<lambda>c. c \<noteq> CHR '']'') (drop 1 opt))))
             \<or> match_class_braces r))"

fun search_documentclass :: "string \<Rightarrow> bool" where
  "search_documentclass [] = False"
| "search_documentclass (c # cs) = (match_documentclass (c # cs) \<or> search_documentclass cs)"

section \<open>Frame generation (tex_gen.py)\<close>

record ParsedTemplate =
  original_source :: string
  preamble_lines :: "string list"
  body_lines :: "string list"
  postamble_lines :: "string list"
  document_class :: string
  class_options :: "string list"
  detected_packages :: "string set"
  needs_shell_escape :: bool
  has_bounding_box :: bool
  param_token :: string

text \<open>
  \<open>BoundingBox.to_tikz_clip\<close>. The coordinates are written with \<open>str\<close> of a float, the
  shortest decimal text that reads back as the same float; it depends on the binary
  representation and is a parameter here.
\<close>

definition to_tikz_clip :: "(pyfloat \<Rightarrow> string) \<Rightarrow> BoundingBox \<Rightarrow> string" where
  "to_tikz_clip float_str self =
     BSL # ''useasboundingbox ('' @ float_str (x_min self) @ ''bp, '' @ float_str (y_min self)
     @ ''bp) rectangle ('' @ float_str (x_max self) @ ''bp, '' @ float_str (y_max self) @ ''bp);''"

text \<open>The loop of \<open>_build_standalone_preamble\<close> that drops the first \<open>\documentclass\<close> line.\<close>

fun copy_preamble :: "bool \<Rightarrow> string list \<Rightarrow> string list" where
  "copy_preamble skipped_docclass [] = []"
| "copy_preamble skipped_docclass (line # rest) =
     (if \<not> skipped_docclass \<and> search_documentclass line then copy_preamble True rest
      else line # copy_preamble skipped_docclass rest)"

definition build_standalone_preamble :: "ParsedTemplate \<Rightarrow> string \<Rightarrow> string" where
  "build_standalone_preamble parsed extra_preamble =
     (let user_opts = filter (\<lambda>opt. opt \<noteq> ''tikz'') (class_options parsed);
          opts = ''tikz'' # user_opts;
          opts = (if \<not> list_ex (\<lambda>opt. startswith opt ''border'') opts then opts @ [''border=2pt'']
                  else opts);
          opts_str = join '', '' opts;
          lines = [BSL # ''documentclass['' @ opts_str @ '']{standalone}'' @ [NL]]
                  @ copy_preamble False (preamble_lines parsed);
          lines = (if extra_preamble \<noteq> [] then lines @ [rstrip_newlines extra_preamble @ [NL]]
                   else lines)
      in concat lines)"

definition bbox_cmd :: "(pyfloat \<Rightarrow> string) \<Rightarrow> BoundingBox \<Rightarrow> string" where
  "bbox_cmd float_str enforced_bbox = ''  '' @ to_tikz_clip float_str enforced_bbox @ [NL]"

definition build_frame_body ::
  "(pyfloat \<Rightarrow> string) \<Rightarrow> ParsedTemplate \<Rightarrow> pyfloat \<Rightarrow> BoundingBox option \<Rightarrow> string" where
  "build_frame_body float_str parsed v enforced_bbox =
     (let body = concat (body_lines parsed);
          value_str = fmt_g v;
          body = py_replace body (param_token parsed) value_str
      in case enforced_bbox of
           Some bb \<Rightarrow>
             if \<not> has_bounding_box parsed then
               (case search_tikz_open body of
                  Some insert_pos \<Rightarrow>
                    take insert_pos body @ bbox_cmd float_str bb @ drop insert_pos body
                | None \<Rightarrow> body)
             else body
         | None \<Rightarrow> body)"

text \<open>
  \<open>generate_frame_specs\<close>. The digest \<open>hashlib.sha256(text.encode("utf-8")).hexdigest()\<close> is
  a parameter.
\<close>

definition frame_spec_of ::
  "(pyfloat \<Rightarrow> string) \<Rightarrow> (string \<Rightarrow> string) \<Rightarrow> ParsedTemplate \<Rightarrow> BoundingBox option \<Rightarrow>
   string \<Rightarrow> nat \<times> pyfloat \<Rightarrow> FrameSpec" where
  "frame_spec_of float_str sha256 parsed enforced_bbox preamble iv =
     (case iv of (idx, val) \<Rightarrow>
        let body = build_frame_body float_str parsed val enforced_bbox;
            full_source = preamble @ BSL # ''begin{document}'' @ [NL] @ body
                          @ BSL # ''end{document}'' @ [NL]
        in \<lparr> index = int idx, param_value = val, param_name = param_token parsed,
             tex_content = full_source, content_hash = sha256 full_source \<rparr>)"

definition generate_frame_specs ::
  "(pyfloat \<Rightarrow> string) \<Rightarrow> (string \<Rightarrow> string) \<Rightarrow> ParsedTemplate \<Rightarrow> pyfloat list \<Rightarrow>
   BoundingBox option \<Rightarrow> string \<Rightarrow> FrameSpec list" where
  "generate_frame_specs float_str sha256 parsed param_values enforced_bbox extra_preamble =
     (let preamble = build_standalone_preamble parsed extra_preamble
      in map (frame_spec_of float_str sha256 parsed enforced_bbox preamble)
           (enumerate 0 param_values))"

text \<open>
  A string that the pattern for the opening of a \<open>tikzpicture\<close> matches as a whole:
  \<open>\begin\<close>, white space, \<open>{tikzpicture}\<close>, the rest of the line, a newline.
\<close>

definition opens_tikzpicture :: "string \<Rightarrow> bool" where
  "opens_tikzpicture m \<longleftrightarrow>
     (\<exists>ws rest. m = BSL # ''begin'' @ ws @ ''{tikzpicture}'' @ rest @ [NL]
                \<and> list_all is_space ws \<and> NL \<notin> set rest)"

definition all_digits :: "string \<Rightarrow> bool" where
  "all_digits s \<longleftrightarrow> set s \<subseteq> set ''0123456789''"

chapter \<open>Properties\<close>

section \<open>Bounding boxes\<close>




section \<open>Probe sampling\<close>



















section \<open>Frame deduplication\<close>

lemma dedup_inv_merge:
  assumes "dedup_inv images ds k groups"
  shows "dedup_inv images ds (Suc k)
           (butlast groups @
              [(last groups)\<lparr> delay_ms := delay_ms (last groups) + ds ! k,
                              original_indices := original_indices (last groups) @ [k] \<rparr>])"
proof -
  from assms have ne: "groups \<noteq> []" by (simp add: dedup_inv_def)
  then obtain gs g where g: "groups = gs @ [g]" by (metis append_butlast_last_id)
  show ?thesis using assms unfolding g dedup_inv_def group_ok_def
    by (auto simp: )
qed

lemma dedup_inv_new:
  assumes "dedup_inv images ds k groups"
  shows "dedup_inv images ds (Suc k)
           (groups @ [\<lparr> frame_image = images ! k, delay_ms = ds ! k, original_indices = [k] \<rparr>])"
  using assms unfolding dedup_inv_def group_ok_def by auto

lemma dedup_loop_inv:
  assumes "dedup_inv images ds k groups" "k \<le> n" "n \<le> length ds"
  shows "\<exists>gs. dedup_loop rmse images ds thr [k..<n] groups = Inr gs \<and> dedup_inv images ds n gs"
  using assms
proof (induction "n - k" arbitrary: k groups)
  case 0
  then show ?case by simp
next
  case (Suc m)
  then have lt: "k < n" and kd: "k < length ds" by auto
  have up: "[k..<n] = k # [Suc k..<n]" using lt by (simp add: upt_conv_Cons)
  have m: "m = n - Suc k" using Suc.hyps(2) by simp
  show ?case
  proof (cases "rmse (frame_image (last groups)) (images ! k) < thr")
    case True
    from Suc.hyps(1)[OF m dedup_inv_merge[OF Suc.prems(1)]] lt Suc.prems(3)
    show ?thesis unfolding up using True kd by simp
  next
    case False
    from Suc.hyps(1)[OF m dedup_inv_new[OF Suc.prems(1)]] lt Suc.prems(3)
    show ?thesis unfolding up using False kd by simp
  qed
qed

lemma dedup_inv_total:
  assumes "dedup_inv images ds (length ds) gs"
  shows "sum_list (map delay_ms gs) = sum_list ds"
proof -
  have "list_all (group_ok images ds) gs \<Longrightarrow>
        sum_list (map delay_ms gs) = sum_list (map (\<lambda>i. ds ! i) (concat (map original_indices gs)))"
    by (induction gs) (auto simp: group_ok_def)
  then show ?thesis using assms by (simp add: dedup_inv_def map_nth)
qed

text \<open>
  Claim C6. For an image list and a delay list of equal length, \<open>deduplicate_frames\<close>
  returns groups whose index lists are non-empty and concatenate, in order, to
  \<open>[0, ..., n - 1]\<close>; each group's \<open>delay_ms\<close> is the sum of the delays of the frames it
  absorbed (and its image is that of its first frame); hence the delays of all groups sum
  to the total of the input delays; and the empty input yields \<open>[]\<close>.
\<close>

theorem deduplicate_frames_partition:
  assumes "length images = length delays_ms"
  shows "\<exists>groups. deduplicate_frames rmse images delays_ms threshold = Inr groups
     \<and> concat (map original_indices groups) = [0..<length images]
     \<and> (\<forall>g \<in> set groups. original_indices g \<noteq> []
            \<and> frame_image g = images ! hd (original_indices g)
            \<and> delay_ms g = sum_list (map (\<lambda>i. delays_ms ! i) (original_indices g)))
     \<and> sum_list (map delay_ms groups) = sum_list delays_ms
     \<and> (images = [] \<longrightarrow> groups = [])"
proof (cases images)
  case Nil
  then show ?thesis using assms by (simp add: deduplicate_frames_def)
next
  case (Cons a as)
  then obtain d0 dr where ds: "delays_ms = d0 # dr" using assms by (cases delays_ms) auto
  have init: "dedup_inv images delays_ms 1 [\<lparr> frame_image = images ! 0, delay_ms = d0, original_indices = [0] \<rparr>]"
    by (simp add: dedup_inv_def group_ok_def ds)
  from dedup_loop_inv[OF init, of "length images" rmse threshold] assms Cons
  obtain gs where gs: "dedup_loop rmse images delays_ms threshold [1..<length images]
            [\<lparr> frame_image = images ! 0, delay_ms = d0, original_indices = [0] \<rparr>] = Inr gs"
      and inv: "dedup_inv images delays_ms (length images) gs" by auto
  have run: "deduplicate_frames rmse images delays_ms threshold = Inr gs"
    using gs Cons ds by (simp add: deduplicate_frames_def)
  have tot: "sum_list (map delay_ms gs) = sum_list delays_ms"
    using dedup_inv_total inv assms by metis
  show ?thesis using run inv tot Cons
    by (auto simp: dedup_inv_def group_ok_def list_all_iff)
qed

theorem deduplicate_frames_partition_witness:
  "length [0::nat, 0, 255, 255, 7] = length [100::int, 100, 100, 100, 100]
   \<and> deduplicate_frames (\<lambda>a b. if a = b then 0 else 1) [0::nat, 0, 255, 255, 7]
        [100, 100, 100, 100, 100] (1 / 100)
      = Inr [\<lparr> frame_image = 0, delay_ms = 200, original_indices = [0, 1] \<rparr>,
             \<lparr> frame_image = 255, delay_ms = 200, original_indices = [2, 3] \<rparr>,
             \<lparr> frame_image = 7, delay_ms = 100, original_indices = [4] \<rparr>]
   \<and> sum_list (map delay_ms [\<lparr> frame_image = 0::nat, delay_ms = 200, original_indices = [0, 1] \<rparr>,
             \<lparr> frame_image = 255, delay_ms = 200, original_indices = [2, 3] \<rparr>,
             \<lparr> frame_image = 7, delay_ms = 100, original_indices = [4] \<rparr>]) = sum_list [100::int, 100, 100, 100, 100]"
  using deduplicate_frames_partition[of "[0::nat, 0, 255, 255, 7]" "[100, 100, 100, 100, 100]"
           "\<lambda>a b. if a = b then 0 else 1" "1 / 100"]
  by (simp add: deduplicate_frames_def upt_conv_Cons)

section \<open>The orchestrator\<close>



















lemma submissions_of_store_bbox [simp]: "submissions_of spec (store_bbox_events s r) = []"
  by (simp add: store_bbox_events_def split: option.splits)

lemma cancelled_store_bbox [simp]: "cancelled (store_bbox_events s r) = []"
  by (simp add: store_bbox_events_def split: option.splits)

lemma submissions_of_Cancel [simp]: "submissions_of spec (map Cancel xs) = []"
  by (induction xs) auto

lemma cancelled_Cancel [simp]: "cancelled (map Cancel xs) = xs"
  by (induction xs) auto

lemma cancelled_Submit [simp]: "cancelled (map (\<lambda>s. Submit a s t) xs) = []"
  by (induction xs) auto
















section \<open>The compilation cache\<close>

lemma mkdirs_step:
  "fs (pre @ [c]) \<noteq> None \<Longrightarrow> (\<exists>d. fs (pre @ [c]) = Some (File d)) \<Longrightarrow>
   fst (mkdirs fs pre (c # cs)) = fs"
  by (auto split: option.splits node.splits)

lemma mkdirs_rec:
  "(\<forall>d. fs (pre @ [c]) \<noteq> Some (File d)) \<Longrightarrow>
   mkdirs fs pre (c # cs) = mkdirs (fs(pre @ [c] \<mapsto> Dir)) (pre @ [c]) cs"
  by (auto split: option.splits node.splits)

lemma mkdirs_File: "fst (mkdirs fs pre rest) p = Some (File d) \<longleftrightarrow> fs p = Some (File d)"
proof (induction rest arbitrary: fs pre)
  case Nil
  then show ?case by simp
next
  case (Cons c cs)
  show ?case
  proof (cases "\<exists>d. fs (pre @ [c]) = Some (File d)")
    case True
    then show ?thesis using mkdirs_step[of fs pre c cs] by auto
  next
    case False
    then have rec: "mkdirs fs pre (c # cs) = mkdirs (fs(pre @ [c] \<mapsto> Dir)) (pre @ [c]) cs"
      by (intro mkdirs_rec) simp
    have "(fs(pre @ [c] \<mapsto> Dir)) p = Some (File d) \<longleftrightarrow> fs p = Some (File d)"
      using False by (cases "p = pre @ [c]") auto
    then show ?thesis unfolding rec using Cons.IH[of "fs(pre @ [c] \<mapsto> Dir)" "pre @ [c]"]
      by (simp add: fun_upd_def)
  qed
qed

lemma mkdirs_Dir:
  "fst (mkdirs fs pre rest) p = Some Dir \<Longrightarrow>
   fs p = Some Dir \<or> length p \<le> length pre + length rest"
proof (induction rest arbitrary: fs pre)
  case Nil
  then show ?case by simp
next
  case (Cons c cs)
  show ?case
  proof (cases "\<exists>d. fs (pre @ [c]) = Some (File d)")
    case True
    then show ?thesis using mkdirs_step[of fs pre c cs] Cons.prems by auto
  next
    case False
    then have rec: "mkdirs fs pre (c # cs) = mkdirs (fs(pre @ [c] \<mapsto> Dir)) (pre @ [c]) cs"
      by (intro mkdirs_rec) simp
    from Cons.IH[of "fs(pre @ [c] \<mapsto> Dir)" "pre @ [c]"] Cons.prems
    have "(fs(pre @ [c] \<mapsto> Dir)) p = Some Dir \<or> length p \<le> length (pre @ [c]) + length cs"
      unfolding rec by (simp add: fun_upd_def)
    then show ?thesis by (cases "p = pre @ [c]") auto
  qed
qed

lemma mkdirs_ok_Dir:
  "snd (mkdirs fs pre rest) = None \<Longrightarrow> rest \<noteq> [] \<Longrightarrow>
   fst (mkdirs fs pre rest) (pre @ rest) = Some Dir"
proof (induction rest arbitrary: fs pre)
  case Nil
  then show ?case by simp
next
  case (Cons c cs)
  have nf: "\<forall>d. fs (pre @ [c]) \<noteq> Some (File d)"
    using Cons.prems(1) by (auto split: option.splits node.splits)
  then have rec: "mkdirs fs pre (c # cs) = mkdirs (fs(pre @ [c] \<mapsto> Dir)) (pre @ [c]) cs"
    by (intro mkdirs_rec) simp
  show ?case
  proof (cases "cs = []")
    case True
    then show ?thesis unfolding rec by simp
  next
    case False
    from Cons.IH[of "fs(pre @ [c] \<mapsto> Dir)" "pre @ [c]"] Cons.prems(1) False
    show ?thesis unfolding rec by (simp add: fun_upd_def)
  qed
qed


lemma adds_file_no_deep_dir:
  "no_deep_dir croot fs \<Longrightarrow> adds_file fs fs' p \<Longrightarrow> no_deep_dir croot fs'"
  by (auto simp: no_deep_dir_def adds_file_def split: if_splits)

lemma adds_file_other: "adds_file fs fs' p \<Longrightarrow> q \<noteq> p \<Longrightarrow> is_file fs' q = is_file fs q"
  by (auto simp: adds_file_def is_file_def)

lemma adds_file_self: "adds_file fs fs' p \<Longrightarrow> is_file fs' p"
  by (auto simp: adds_file_def is_file_def)

lemma ensure_dir_File: "is_file (fst (ensure_dir fs p)) q = is_file fs q"
proof -
  have "(\<exists>d. fst (mkdirs fs [] p) q = Some (File d)) = (\<exists>d. fs q = Some (File d))"
    using mkdirs_File[of fs "[]" p q] by simp
  then show ?thesis
    by (auto simp: ensure_dir_def is_file_def split: option.splits node.splits)
qed

lemma ensure_dir_no_deep_dir:
  assumes "no_deep_dir croot fs" "length p \<le> length croot + 3"
  shows "no_deep_dir croot (fst (ensure_dir fs p))"
  unfolding no_deep_dir_def
proof (intro allI impI)
  fix q :: path assume q: "length q = 4"
  show "fst (ensure_dir fs p) (croot @ q) \<noteq> Some Dir"
  proof
    assume "fst (ensure_dir fs p) (croot @ q) = Some Dir"
    then have "fs (croot @ q) = Some Dir \<or> length (croot @ q) \<le> length p"
      using mkdirs_Dir[of fs "[]" p "croot @ q"] by (simp add: ensure_dir_def)
    then show False using assms q by (auto simp: no_deep_dir_def)
  qed
qed

lemma write_file_result:
  "write_file fs p d = Inr fs' \<Longrightarrow> adds_file fs fs' p \<and> \<not> is_dir fs p"
  by (auto simp: write_file_def is_dir_def adds_file_def split: if_splits)

lemma copy2_result:
  assumes "copy2 fs src dst = Inr fs'"
  shows "(\<not> is_dir fs dst \<and> adds_file fs fs' dst)
           \<or> (is_dir fs dst \<and> adds_file fs fs' (dst @ [last src]))"
proof -
  define target where "target = (if is_dir fs dst \<and> src \<noteq> [] then dst @ [last src] else dst)"
  have c: "copy2 fs src dst =
      (if src = target \<and> fs src \<noteq> None then Inl (SameFileError src)
       else case fs src of
              None \<Rightarrow> Inl (FileNotFoundError src)
            | Some Dir \<Rightarrow> Inl (IsADirectoryError src)
            | Some (File d) \<Rightarrow> write_file fs target d)"
    unfolding copy2_def Let_def target_def by (rule refl)
  have same: "\<not> (src = target \<and> fs src \<noteq> None)"
  proof
    assume a: "src = target \<and> fs src \<noteq> None"
    have "copy2 fs src dst = Inl (SameFileError src)" by (subst c, subst if_P[OF a], rule refl)
    then show False using assms by simp
  qed
  have c': "(case fs src of
              None \<Rightarrow> Inl (FileNotFoundError src)
            | Some Dir \<Rightarrow> Inl (IsADirectoryError src)
            | Some (File d) \<Rightarrow> write_file fs target d) = Inr fs'"
    using assms by (subst (asm) c, subst (asm) if_not_P[OF same])
  then obtain d where w: "write_file fs target d = Inr fs'"
    by (cases "fs src") (auto split: node.splits)
  from write_file_result[OF w] have r: "adds_file fs fs' target" and nd: "\<not> is_dir fs target"
    by simp_all
  show ?thesis
  proof (cases "is_dir fs dst \<and> src \<noteq> []")
    case True
    then have "target = dst @ [last src]" by (simp add: target_def)
    then show ?thesis using r True by blast
  next
    case False
    then have "target = dst" by (simp add: target_def)
    then show ?thesis using r nd by blast
  qed
qed

lemma frame_dir_eq:
  "frame_dir croot fs h =
     (fst (ensure_dir fs (key_dir croot h)),
      case snd (ensure_dir fs (key_dir croot h)) of
        Some e \<Rightarrow> Inl e | None \<Rightarrow> Inr (key_dir croot h))"
  by (simp add: frame_dir_def split: prod.splits option.splits)

lemma frame_dir_fst: "fst (frame_dir croot fs h) = fst (ensure_dir fs (key_dir croot h))"
  by (simp add: frame_dir_eq)

lemma key_dir_length: "length (key_dir croot h) = length croot + 3"
  by (simp add: key_dir_def)

lemma key_dir_inj:
  assumes "key_dir croot h = key_dir croot h'"
  shows "h = h'"
proof -
  from assms have "take 2 h = take 2 h'" and "drop 2 h = drop 2 h'"
    by (simp_all add: key_dir_def)
  then have "take 2 h @ drop 2 h = take 2 h' @ drop 2 h'" by simp
  then show ?thesis by (simp only: append_take_drop_id)
qed

lemma frame_dir_no_deep_dir:
  "no_deep_dir croot fs \<Longrightarrow> no_deep_dir croot (fst (frame_dir croot fs h))"
  by (simp add: frame_dir_fst ensure_dir_no_deep_dir key_dir_length)

text \<open>What a store leaves: the file system after \<open>frame_dir\<close>, possibly with one more file.\<close>

lemma store_tex_result:
  "fst (store_tex croot fs spec) = fst (frame_dir croot fs (content_hash spec))
   \<or> adds_file (fst (frame_dir croot fs (content_hash spec))) (fst (store_tex croot fs spec))
        (key_dir croot (content_hash spec) @ [''frame.tex''])"
proof (cases "snd (ensure_dir fs (key_dir croot (content_hash spec)))")
  case (Some e)
  then show ?thesis by (simp add: store_tex_def frame_dir_eq)
next
  case None
  show ?thesis
  proof (cases "write_file (fst (ensure_dir fs (key_dir croot (content_hash spec)))) (key_dir croot (content_hash spec) @ [''frame.tex'']) (Text (tex_content spec))")
    case (Inl e)
    then show ?thesis using None by (simp add: store_tex_def frame_dir_eq)
  next
    case (Inr fs2)
    have eq: "fst (store_tex croot fs spec) = fs2"
      using None Inr by (simp add: store_tex_def frame_dir_eq)
    from write_file_result[OF Inr] show ?thesis unfolding eq frame_dir_fst by blast
  qed
qed

lemma store_bbox_result:
  "fst (store_bbox croot fs h bb) = fst (frame_dir croot fs h)
   \<or> adds_file (fst (frame_dir croot fs h)) (fst (store_bbox croot fs h bb))
        (key_dir croot h @ [''bbox.json''])"
proof (cases "snd (ensure_dir fs (key_dir croot h))")
  case (Some e)
  then show ?thesis by (simp add: store_bbox_def frame_dir_eq)
next
  case None
  show ?thesis
  proof (cases "write_file (fst (ensure_dir fs (key_dir croot h))) (key_dir croot h @ [''bbox.json'']) (BBoxJson bb)")
    case (Inl e)
    then show ?thesis using None by (simp add: store_bbox_def frame_dir_eq)
  next
    case (Inr fs2)
    have eq: "fst (store_bbox croot fs h bb) = fs2"
      using None Inr by (simp add: store_bbox_def frame_dir_eq)
    from write_file_result[OF Inr] show ?thesis unfolding eq frame_dir_fst by blast
  qed
qed

lemma store_pdf_result:
  "fst (store_pdf croot fs spec src) = fst (frame_dir croot fs (content_hash spec))
   \<or> adds_file (fst (frame_dir croot fs (content_hash spec))) (fst (store_pdf croot fs spec src))
        (key_dir croot (content_hash spec) @ [''frame.pdf''])
   \<or> adds_file (fst (frame_dir croot fs (content_hash spec))) (fst (store_pdf croot fs spec src))
        ((key_dir croot (content_hash spec) @ [''frame.pdf'']) @ [last src])"
proof (cases "snd (ensure_dir fs (key_dir croot (content_hash spec)))")
  case (Some e)
  then show ?thesis by (simp add: store_pdf_def frame_dir_eq)
next
  case None
  show ?thesis
  proof (cases "copy2 (fst (ensure_dir fs (key_dir croot (content_hash spec)))) src
                  (key_dir croot (content_hash spec) @ [''frame.pdf''])")
    case (Inl e)
    then show ?thesis using None by (simp add: store_pdf_def frame_dir_eq)
  next
    case (Inr fs2)
    have eq: "fst (store_pdf croot fs spec src) = fs2"
      using None Inr by (simp add: store_pdf_def frame_dir_eq)
    from copy2_result[OF Inr] show ?thesis unfolding eq frame_dir_fst by blast
  qed
qed

lemma store_png_result:
  "fst (store_png croot fs spec src) = fst (frame_dir croot fs (content_hash spec))
   \<or> adds_file (fst (frame_dir croot fs (content_hash spec))) (fst (store_png croot fs spec src))
        (key_dir croot (content_hash spec) @ [''frame.png''])
   \<or> adds_file (fst (frame_dir croot fs (content_hash spec))) (fst (store_png croot fs spec src))
        ((key_dir croot (content_hash spec) @ [''frame.png'']) @ [last src])"
proof (cases "snd (ensure_dir fs (key_dir croot (content_hash spec)))")
  case (Some e)
  then show ?thesis by (simp add: store_png_def frame_dir_eq)
next
  case None
  show ?thesis
  proof (cases "copy2 (fst (ensure_dir fs (key_dir croot (content_hash spec)))) src
                  (key_dir croot (content_hash spec) @ [''frame.png''])")
    case (Inl e)
    then show ?thesis using None by (simp add: store_png_def frame_dir_eq)
  next
    case (Inr fs2)
    have eq: "fst (store_png croot fs spec src) = fs2"
      using None Inr by (simp add: store_png_def frame_dir_eq)
    from copy2_result[OF Inr] show ?thesis unfolding eq frame_dir_fst by blast
  qed
qed

lemma no_deep_dir_step:
  assumes "no_deep_dir croot fs1"
      and "fs' = fs1 \<or> adds_file fs1 fs' p \<or> adds_file fs1 fs' p2"
  shows "no_deep_dir croot fs'"
  using assms adds_file_no_deep_dir[of croot fs1 fs' p] adds_file_no_deep_dir[of croot fs1 fs' p2]
  by blast

lemma apply_op_no_deep_dir:
  assumes "no_deep_dir croot fs"
  shows "no_deep_dir croot (apply_op croot fs op)"
proof (cases op)
  case (OpFrameDir h)
  then show ?thesis using assms by (simp add: frame_dir_no_deep_dir)
next
  case (OpStoreTex spec)
  have "no_deep_dir croot (fst (store_tex croot fs spec))"
    using store_tex_result[of croot fs spec]
    by (intro no_deep_dir_step[OF frame_dir_no_deep_dir[OF assms],
          where p = "key_dir croot (content_hash spec) @ [''frame.tex'']"
            and ?p2.0 = "key_dir croot (content_hash spec) @ [''frame.tex'']"]) blast
  then show ?thesis using OpStoreTex by simp
next
  case (OpStorePdf spec src)
  have "no_deep_dir croot (fst (store_pdf croot fs spec src))"
    using store_pdf_result[of croot fs spec src]
    by (intro no_deep_dir_step[OF frame_dir_no_deep_dir[OF assms]])
  then show ?thesis using OpStorePdf by simp
next
  case (OpStorePng spec src)
  have "no_deep_dir croot (fst (store_png croot fs spec src))"
    using store_png_result[of croot fs spec src]
    by (intro no_deep_dir_step[OF frame_dir_no_deep_dir[OF assms]])
  then show ?thesis using OpStorePng by simp
next
  case (OpStoreBbox h bb)
  have "no_deep_dir croot (fst (store_bbox croot fs h bb))"
    using store_bbox_result[of croot fs h bb]
    by (intro no_deep_dir_step[OF frame_dir_no_deep_dir[OF assms],
          where p = "key_dir croot h @ [''bbox.json'']"
            and ?p2.0 = "key_dir croot h @ [''bbox.json'']"]) blast
  then show ?thesis using OpStoreBbox by simp
qed

lemma run_ops_no_deep_dir:
  "no_deep_dir croot fs \<Longrightarrow> no_deep_dir croot (run_ops croot fs ops)"
  unfolding run_ops_def by (induction ops arbitrary: fs) (auto simp: apply_op_no_deep_dir)

lemma cache_init_fst:
  "fst (cache_init croot fs) = fst (ensure_dir fs (croot @ [''frames'']))
   \<or> fst (cache_init croot fs)
       = fst (ensure_dir (fst (ensure_dir fs (croot @ [''frames'']))) (croot @ [''meta'']))"
  by (auto simp: cache_init_def split: prod.splits option.splits)

lemma cache_init_no_deep_dir:
  assumes "\<forall>p. fs0 (croot @ p) = None"
  shows "no_deep_dir croot (fst (cache_init croot fs0))"
proof -
  have "no_deep_dir croot fs0" using assms by (simp add: no_deep_dir_def)
  then show ?thesis using cache_init_fst[of croot fs0]
    by (auto simp: ensure_dir_no_deep_dir)
qed

lemma cache_init_has_frame:
  assumes "\<forall>p. fs0 (croot @ p) = None"
  shows "\<not> has_frame croot (fst (cache_init croot fs0)) h"
proof -
  have "\<not> is_file fs0 (key_dir croot h @ [''frame.pdf''])"
    using assms by (simp add: is_file_def key_dir_def)
  then show ?thesis using cache_init_fst[of croot fs0]
    by (auto simp: has_frame_def ensure_dir_File)
qed

lemma not_file_step:
  assumes "\<not> is_file fs1 T"
      and "fs' = fs1 \<or> adds_file fs1 fs' p \<or> adds_file fs1 fs' p2"
      and "T \<noteq> p" and "T \<noteq> p2"
  shows "\<not> is_file fs' T"
  using assms adds_file_other[of fs1 fs' p T] adds_file_other[of fs1 fs' p2 T] by blast

lemma apply_op_has_frame:
  assumes "\<not> has_frame croot fs h" "\<not> stores_pdf_for h op"
  shows "\<not> has_frame croot (apply_op croot fs op) h"
proof -
  let ?T = "key_dir croot h @ [''frame.pdf'']"
  have base: "\<not> is_file (fst (frame_dir croot fs h')) ?T" for h'
    using assms(1) by (simp add: frame_dir_fst ensure_dir_File has_frame_def)
  have long: "?T \<noteq> (key_dir croot h' @ [f]) @ [g]" for h' f g
    by (simp add: key_dir_def)
  show ?thesis
  proof (cases op)
    case (OpFrameDir h')
    then show ?thesis using base by (simp add: has_frame_def)
  next
    case (OpStoreTex spec)
    have ne: "?T \<noteq> key_dir croot (content_hash spec) @ [''frame.tex'']" by simp
    have "\<not> is_file (fst (store_tex croot fs spec)) ?T"
      using store_tex_result[of croot fs spec]
      by (intro not_file_step[OF base _ ne ne]) blast
    then show ?thesis using OpStoreTex by (simp add: has_frame_def)
  next
    case (OpStorePdf spec src)
    then have "content_hash spec \<noteq> h" using assms(2) by simp
    then have ne: "?T \<noteq> key_dir croot (content_hash spec) @ [''frame.pdf'']"
      using key_dir_inj by auto
    have "\<not> is_file (fst (store_pdf croot fs spec src)) ?T"
      using store_pdf_result[of croot fs spec src]
      by (intro not_file_step[OF base _ ne long])
    then show ?thesis using OpStorePdf by (simp add: has_frame_def)
  next
    case (OpStorePng spec src)
    have ne: "?T \<noteq> key_dir croot (content_hash spec) @ [''frame.png'']" by simp
    have "\<not> is_file (fst (store_png croot fs spec src)) ?T"
      using store_png_result[of croot fs spec src]
      by (intro not_file_step[OF base _ ne long])
    then show ?thesis using OpStorePng by (simp add: has_frame_def)
  next
    case (OpStoreBbox h' bb)
    have ne: "?T \<noteq> key_dir croot h' @ [''bbox.json'']" by simp
    have "\<not> is_file (fst (store_bbox croot fs h' bb)) ?T"
      using store_bbox_result[of croot fs h' bb]
      by (intro not_file_step[OF base _ ne ne]) blast
    then show ?thesis using OpStoreBbox by (simp add: has_frame_def)
  qed
qed

lemma run_ops_has_frame:
  "\<not> has_frame croot fs h \<Longrightarrow> \<not> list_ex (stores_pdf_for h) ops \<Longrightarrow>
   \<not> has_frame croot (run_ops croot fs ops) h"
  unfolding run_ops_def by (induction ops arbitrary: fs) (auto simp: apply_op_has_frame)

lemma store_pdf_has_frame:
  assumes "no_deep_dir croot fs" "snd (store_pdf croot fs spec src) = Inr dest"
  shows "has_frame croot (fst (store_pdf croot fs spec src)) (content_hash spec)"
proof -
  let ?h = "content_hash spec"
  let ?fs1 = "fst (ensure_dir fs (key_dir croot ?h))"
  let ?dst = "key_dir croot ?h @ [''frame.pdf'']"
  have "no_deep_dir croot ?fs1"
    using assms(1) by (simp add: ensure_dir_no_deep_dir key_dir_length)
  then have "?fs1 (croot @ [''frames'', take 2 ?h, drop 2 ?h, ''frame.pdf'']) \<noteq> Some Dir"
    unfolding no_deep_dir_def by simp
  then have nd: "\<not> is_dir ?fs1 ?dst" by (simp add: is_dir_def key_dir_def)
  show ?thesis
  proof (cases "copy2 ?fs1 src ?dst")
    case (Inl e)
    then show ?thesis using assms(2)
      by (simp add: store_pdf_def frame_dir_eq split: option.splits)
  next
    case (Inr fs2)
    have eq: "fst (store_pdf croot fs spec src) = fs2"
      using Inr assms(2) by (simp add: store_pdf_def frame_dir_eq split: option.splits)
    from copy2_result[OF Inr] nd have "adds_file ?fs1 fs2 ?dst" by blast
    then show ?thesis unfolding eq has_frame_def by (rule adds_file_self)
  qed
qed

text \<open>
  Claim C5. Start from a file system in which the cache directory does not exist, create
  the cache, and run any history of \<open>frame_dir\<close>, \<open>store_tex\<close>, \<open>store_pdf\<close>, \<open>store_png\<close> and
  \<open>store_bbox\<close> calls (returned or raised) on digests. If the history has no \<open>store_pdf\<close>
  for \<open>h\<close>, then \<open>has_frame(h)\<close> is false; and whenever \<open>store_pdf\<close> for \<open>h\<close> then returns,
  \<open>has_frame(h)\<close> is true in the file system it leaves.
\<close>

theorem has_frame_false_before_true_after_store:
  assumes "\<forall>p. fs0 (croot @ p) = None"
      and "snd (cache_init croot fs0) = None"
      and "is_sha256_hex h"
      and "list_all (\<lambda>op. is_sha256_hex (op_hash op)) ops"
  shows "(\<not> list_ex (stores_pdf_for h) ops \<longrightarrow>
            \<not> has_frame croot (run_ops croot (fst (cache_init croot fs0)) ops) h)
       \<and> (content_hash spec = h
            \<and> snd (store_pdf croot (run_ops croot (fst (cache_init croot fs0)) ops) spec src) = Inr dest
          \<longrightarrow> has_frame croot
                (fst (store_pdf croot (run_ops croot (fst (cache_init croot fs0)) ops) spec src)) h)"
proof (rule conjI)
  show "\<not> list_ex (stores_pdf_for h) ops \<longrightarrow>
          \<not> has_frame croot (run_ops croot (fst (cache_init croot fs0)) ops) h"
    using run_ops_has_frame[OF cache_init_has_frame[OF assms(1)]] by blast
  have "no_deep_dir croot (run_ops croot (fst (cache_init croot fs0)) ops)"
    using assms(1) by (intro run_ops_no_deep_dir cache_init_no_deep_dir)
  then show "content_hash spec = h
            \<and> snd (store_pdf croot (run_ops croot (fst (cache_init croot fs0)) ops) spec src) = Inr dest
          \<longrightarrow> has_frame croot
                (fst (store_pdf croot (run_ops croot (fst (cache_init croot fs0)) ops) spec src)) h"
    using store_pdf_has_frame by blast
qed

lemmas cache_defs = ex_hash_def ex_cached_spec_def ex_fs_def cache_init_def ensure_dir_def
  run_ops_def store_tex_def store_pdf_def frame_dir_def key_dir_def write_file_def copy2_def
  is_dir_def is_file_def has_frame_def Let_def is_sha256_hex_def

theorem has_frame_false_before_true_after_store_witness:
  "\<not> has_frame [''cache''] (fst (cache_init [''cache''] ex_fs)) ex_hash
   \<and> \<not> has_frame [''cache'']
        (run_ops [''cache''] (fst (cache_init [''cache''] ex_fs)) [OpStoreTex ex_cached_spec]) ex_hash
   \<and> has_frame [''cache'']
        (fst (store_pdf [''cache'']
           (run_ops [''cache''] (fst (cache_init [''cache''] ex_fs)) [OpStoreTex ex_cached_spec])
           ex_cached_spec [''tmp'', ''out.pdf''])) ex_hash"
proof -
  let ?dest = "[''cache'', ''frames'', ''ab'',
     ''0123456789cdef0123456789abcdef0123456789abcdef0123456789abcdef'', ''frame.pdf'']"
  have h1: "\<forall>p. ex_fs ([''cache''] @ p) = None" by (simp add: ex_fs_def)
  have h2: "snd (cache_init [''cache''] ex_fs) = None" by (simp add: cache_defs)
  have h3: "is_sha256_hex ex_hash" by (simp add: ex_hash_def is_sha256_hex_def)
  have h4: "list_all (\<lambda>op. is_sha256_hex (op_hash op)) [OpStoreTex ex_cached_spec]"
    by (simp add: ex_cached_spec_def ex_hash_def is_sha256_hex_def)
  have h4': "list_all (\<lambda>op. is_sha256_hex (op_hash op)) []" by simp
  have h5: "\<not> list_ex (stores_pdf_for ex_hash) [OpStoreTex ex_cached_spec]" by simp
  have h6: "content_hash ex_cached_spec = ex_hash" by (simp add: ex_cached_spec_def)
  have h7: "snd (store_pdf [''cache'']
           (run_ops [''cache''] (fst (cache_init [''cache''] ex_fs)) [OpStoreTex ex_cached_spec])
           ex_cached_spec [''tmp'', ''out.pdf'']) = Inr ?dest"
    by (simp add: cache_defs)
  from has_frame_false_before_true_after_store[OF h1 h2 h3 h4,
         of ex_cached_spec "[''tmp'', ''out.pdf'']" ?dest]
       has_frame_false_before_true_after_store[OF h1 h2 h3 h4',
         of ex_cached_spec "[''tmp'', ''out.pdf'']" ?dest]
       h5 h6 h7
  show ?thesis by (simp add: run_ops_def)
qed

end
